theory Spec2Isabelle
  imports Main
begin

section \<open>The broker-side data the subscriber works on\<close>

text \<open>
  The package wraps the Pub/Sub client: the client, its subscriptions, its messages, the
  standard context and the standard logger are not part of the package. They are modelled
  by what the package does with them.

  A Go \<^verbatim>\<open>error\<close> is its message; \<^verbatim>\<open>nil\<close> is \<open>None\<close>.
  Every effect a handler, an interceptor's handler or the subscriber can have on the outside
  is an entry of one ordered trace: an acknowledgement, a negative acknowledgement, a line
  of the standard logger, or an effect of the user's own code.
\<close>

type_synonym error = string

datatype event = AckEv string | NackEv string | LogPrintf string | UserEv string

text \<open>
  \<^verbatim>\<open>type SubscriptionInfo struct { SubscriptionID string }\<close>. The subscriber hands
  interceptors a pointer to a descriptor, \<^verbatim>\<open>&subscriptionInfo\<close>, and whoever holds
  the pointer can read and write the descriptor. So descriptors live in a store that is
  part of the world, and a pointer is an address of that store. The descriptor that one call
  of \<^verbatim>\<open>Run\<close> makes for one registered subscription is a variable of its own: its
  address is the number of that call's context and the id under which the handler is
  registered.
\<close>

record SubscriptionInfo =
  SubscriptionID :: string

type_synonym info_ptr = "nat \<times> string"

text \<open>
  A context made by \<^verbatim>\<open>context.WithCancel\<close> is \<open>CancelCtx i parent\<close>; its
  cancel function is the number \<open>i\<close>. The world holds the trace, the cancel functions
  that have been called, the next unused context number and the store of descriptors.
\<close>

datatype Context = Background | CancelCtx nat Context

record world =
  events :: "event list"
  cancelled :: "nat set"
  next_ctx :: nat
  infos :: "info_ptr \<rightharpoonup> SubscriptionInfo"

fun ctx_done :: "world \<Rightarrow> Context \<Rightarrow> bool" where
  "ctx_done w Background = False"
| "ctx_done w (CancelCtx i parent) = (i \<in> cancelled w \<or> ctx_done w parent)"

definition WithCancel :: "Context \<Rightarrow> world \<Rightarrow> (Context \<times> nat) \<times> world" where
  "WithCancel parent w =
     ((CancelCtx (next_ctx w) parent, next_ctx w), w\<lparr>next_ctx := Suc (next_ctx w)\<rparr>)"

record Message =
  msg_ID :: string
  Data :: string
  Attributes :: "(string \<times> string) list"

definition Ack :: "Message \<Rightarrow> world \<Rightarrow> world" where
  "Ack m w = w\<lparr>events := events w @ [AckEv (msg_ID m)]\<rparr>"

definition Nack :: "Message \<Rightarrow> world \<Rightarrow> world" where
  "Nack m w = w\<lparr>events := events w @ [NackEv (msg_ID m)]\<rparr>"

definition log_Printf :: "error \<Rightarrow> world \<Rightarrow> world" where
  "log_Printf e w = w\<lparr>events := events w @ [LogPrintf e]\<rparr>"

section \<open>The subscriber's types\<close>

text \<open>
  \<^verbatim>\<open>type MessageHandler = func(ctx context.Context, m *pubsub.Message) error\<close> and
  \<^verbatim>\<open>type SubscriptionInterceptor = func(info *SubscriptionInfo, next MessageHandler) MessageHandler\<close>.
  A handler is a function of the world that returns its error and the world it leaves.
  An interceptor is called with the pointer to the descriptor and the next handler; the
  call itself runs in the world, where it may read and write the descriptor, and returns
  the handler it makes. An interceptor whose body only returns a closure is
  \<open>pure_interceptor\<close> of the function from pointer and next handler to that closure.
\<close>

type_synonym MessageHandler = "Context \<Rightarrow> Message \<Rightarrow> world \<Rightarrow> error option \<times> world"

type_synonym SubscriptionInterceptor =
  "info_ptr \<Rightarrow> MessageHandler \<Rightarrow> world \<Rightarrow> MessageHandler \<times> world"

definition pure_interceptor ::
  "(info_ptr \<Rightarrow> MessageHandler \<Rightarrow> MessageHandler) \<Rightarrow> SubscriptionInterceptor" where
  "pure_interceptor mk info nxt w = (mk info nxt, w)"

record subscriberOptions =
  subscriptionInterceptors :: "SubscriptionInterceptor list"

text \<open>
  A \<^verbatim>\<open>*pubsub.Subscriber\<close> is used through two methods: \<^verbatim>\<open>ID()\<close> and
  \<^verbatim>\<open>Receive(ctx, f)\<close>, which hands messages to the callback \<open>f\<close> and returns an
  error or \<^verbatim>\<open>nil\<close>. What a subscription delivers is the broker's business, so
  \<open>Receive\<close> is a field: any function of this type.
\<close>

type_synonym callback = "Context \<Rightarrow> Message \<Rightarrow> world \<Rightarrow> world"

record pubsub_Subscriber =
  ID :: string
  Receive :: "Context \<Rightarrow> callback \<Rightarrow> world \<Rightarrow> error option \<times> world"

record subscriptionHandler =
  subscription :: pubsub_Subscriber
  handleFunc :: MessageHandler

text \<open>
  \<^verbatim>\<open>sync.RWMutex\<close>: \<open>readers\<close> counts the read locks held; \<open>writer\<close> is set from
  the moment a goroutine has announced itself in \<^verbatim>\<open>Lock\<close> until its
  \<^verbatim>\<open>Unlock\<close>. \<^verbatim>\<open>RLock\<close> waits while \<open>writer\<close> is set; \<^verbatim>\<open>Lock\<close> waits for
  another writer, announces itself, and then waits until no read lock is held.
\<close>

record RWMutex =
  readers :: nat
  writer :: bool

record Subscriber =
  mu :: RWMutex
  opts :: subscriberOptions
  pubsubClient :: string
  subscriptionHandlers :: "string \<rightharpoonup> subscriptionHandler"
  cancel :: "nat option"

definition NewSubscriber ::
  "string \<Rightarrow> (subscriberOptions \<Rightarrow> subscriberOptions) list \<Rightarrow> Subscriber" where
  "NewSubscriber client opt =
     \<lparr>mu = \<lparr>readers = 0, writer = False\<rparr>,
      opts = fold (\<lambda>ap os. ap os) opt \<lparr>subscriptionInterceptors = []\<rparr>,
      pubsubClient = client,
      subscriptionHandlers = Map.empty,
      cancel = None\<rparr>"

section \<open>Registration\<close>

text \<open>
  \<^verbatim>\<open>HandleSubscriptionFunc\<close> statement by statement. A goroutine that runs it is at one
  of these points; a step is one statement, and a step that is \<open>None\<close> is a statement
  that cannot proceed now (a lock that is not free) or a call that has returned.

  \<^verbatim>\<open>
  s.mu.RLock()                                              AtRLock
  if _, ok := s.subscriptionHandlers[subscription.ID()]; ok {   AtLookup
      return fmt.Errorf("handler for subscription '%s' is already registered", ...)
  }
  s.mu.RUnlock()                                            AtRUnlock
  s.mu.Lock()                                               AtLock, AtLockWait
  s.subscriptionHandlers[subscription.ID()] = &subscriptionHandler{...}   AtStore
  s.mu.Unlock()                                             AtUnlock
  return nil
  \<close>
  The early return of the duplicate branch leaves the function with the read lock held: no
  \<^verbatim>\<open>RUnlock\<close> is on that path.
\<close>

datatype pc = AtRLock | AtLookup | AtRUnlock | AtLock | AtLockWait | AtStore | AtUnlock
  | Returned "error option"

record goroutine =
  arg_subscription :: pubsub_Subscriber
  arg_f :: MessageHandler
  at_pc :: pc

definition already_registered :: "string \<Rightarrow> error" where
  "already_registered i = ''handler for subscription '' @ [CHR 0x27] @ i @ [CHR 0x27] @ '' is already registered''"

definition step :: "goroutine \<Rightarrow> Subscriber \<Rightarrow> (goroutine \<times> Subscriber) option" where
  "step g s =
     (case at_pc g of
        AtRLock \<Rightarrow>
          if writer (mu s) then None
          else Some (g\<lparr>at_pc := AtLookup\<rparr>, s\<lparr>mu := (mu s)\<lparr>readers := Suc (readers (mu s))\<rparr>\<rparr>)
      | AtLookup \<Rightarrow>
          (case subscriptionHandlers s (ID (arg_subscription g)) of
             Some h \<Rightarrow> Some (g\<lparr>at_pc := Returned (Some (already_registered (ID (arg_subscription g))))\<rparr>, s)
           | None \<Rightarrow> Some (g\<lparr>at_pc := AtRUnlock\<rparr>, s))
      | AtRUnlock \<Rightarrow>
          Some (g\<lparr>at_pc := AtLock\<rparr>, s\<lparr>mu := (mu s)\<lparr>readers := readers (mu s) - 1\<rparr>\<rparr>)
      | AtLock \<Rightarrow>
          if writer (mu s) then None
          else Some (g\<lparr>at_pc := AtLockWait\<rparr>, s\<lparr>mu := (mu s)\<lparr>writer := True\<rparr>\<rparr>)
      | AtLockWait \<Rightarrow>
          if readers (mu s) \<noteq> 0 then None
          else Some (g\<lparr>at_pc := AtStore\<rparr>, s)
      | AtStore \<Rightarrow>
          Some (g\<lparr>at_pc := AtUnlock\<rparr>,
                s\<lparr>subscriptionHandlers := (subscriptionHandlers s)
                     (ID (arg_subscription g) \<mapsto>
                        \<lparr>subscription = arg_subscription g, handleFunc = arg_f g\<rparr>)\<rparr>)
      | AtUnlock \<Rightarrow>
          Some (g\<lparr>at_pc := Returned None\<rparr>, s\<lparr>mu := (mu s)\<lparr>writer := False\<rparr>\<rparr>)
      | Returned r \<Rightarrow> None)"

text \<open>
  One call with no other goroutine running: the steps in order, until the call has returned
  or waits for a lock that nobody else will release. The function has seven statements, so
  seven steps always reach that point (\<open>run_alone_stops\<close> below).
\<close>

fun run_alone :: "nat \<Rightarrow> goroutine \<Rightarrow> Subscriber \<Rightarrow> goroutine \<times> Subscriber" where
  "run_alone 0 g s = (g, s)"
| "run_alone (Suc n) g s =
     (case step g s of None \<Rightarrow> (g, s) | Some (g', s') \<Rightarrow> run_alone n g' s')"

definition HandleSubscriptionFunc ::
  "pubsub_Subscriber \<Rightarrow> MessageHandler \<Rightarrow> Subscriber \<Rightarrow> pc \<times> Subscriber" where
  "HandleSubscriptionFunc sub f s =
     (case run_alone 7 \<lparr>arg_subscription = sub, arg_f = f, at_pc = AtRLock\<rparr> s of
        (g, s') \<Rightarrow> (at_pc g, s'))"

text \<open>
  Calls that run concurrently: the goroutines, the subscriber they share, and the error an
  \<^verbatim>\<open>errgroup.Group\<close> keeps (the first non-nil error a goroutine of the group
  returned). A schedule is the order in which the goroutines take their steps; a schedule
  that names a goroutine which cannot step is not a run.
\<close>

record config =
  goroutines :: "goroutine list"
  shared :: Subscriber
  eg_err :: "error option"

definition sched_step :: "nat \<Rightarrow> config \<Rightarrow> config option" where
  "sched_step i c =
     (if i < length (goroutines c) then
        (case step (goroutines c ! i) (shared c) of
           None \<Rightarrow> None
         | Some (g', s') \<Rightarrow>
             Some \<lparr>goroutines = (goroutines c)[i := g'],
                   shared = s',
                   eg_err = (case eg_err c of
                               Some e \<Rightarrow> Some e
                             | None \<Rightarrow> (case at_pc g' of Returned r \<Rightarrow> r | _ \<Rightarrow> None))\<rparr>)
      else None)"

fun run_sched :: "nat list \<Rightarrow> config \<Rightarrow> config option" where
  "run_sched [] c = Some c"
| "run_sched (i # is) c = (case sched_step i c of None \<Rightarrow> None | Some c' \<Rightarrow> run_sched is c')"

definition returned :: "goroutine \<Rightarrow> bool" where
  "returned g = (case at_pc g of Returned r \<Rightarrow> True | _ \<Rightarrow> False)"

text \<open>
  Calls of \<^verbatim>\<open>HandleSubscriptionFunc\<close> that are about to start on one subscriber,
  each in a goroutine of its own.
\<close>

definition start_calls ::
  "(pubsub_Subscriber \<times> MessageHandler) list \<Rightarrow> Subscriber \<Rightarrow> config" where
  "start_calls calls s =
     \<lparr>goroutines = map (\<lambda>(sub, f). \<lparr>arg_subscription = sub, arg_f = f, at_pc = AtRLock\<rparr>) calls,
      shared = s,
      eg_err = None\<rparr>"

text \<open>
  \<^verbatim>\<open>HandleSubscriptionFuncMap\<close> starts one such goroutine per entry of the map and
  waits for all of them. The map is keyed by pointer, so it is a list of pairs here: two
  entries may be subscriptions with the same id. \<^verbatim>\<open>eg.Wait()\<close> returns once every
  goroutine has returned, with the group's error. The schedule is the order in which the
  goroutines happen to run; the result is \<open>None\<close> when that schedule is not a run or
  leaves a goroutine that has not returned.
  \<^verbatim>\<open>
  eg := errgroup.Group{}
  for sub, f := range funcMap {
      sub, f := sub, f
      eg.Go(func() error { return s.HandleSubscriptionFunc(sub, f) })
  }
  return eg.Wait()
  \<close>
\<close>

definition eg_Wait :: "config \<Rightarrow> error option option" where
  "eg_Wait c = (if list_all returned (goroutines c) then Some (eg_err c) else None)"

definition HandleSubscriptionFuncMap ::
  "nat list \<Rightarrow> (pubsub_Subscriber \<times> MessageHandler) list \<Rightarrow> Subscriber
     \<Rightarrow> (error option \<times> Subscriber) option" where
  "HandleSubscriptionFuncMap schedule funcMap s =
     (case run_sched schedule (start_calls funcMap s) of
        None \<Rightarrow> None
      | Some c \<Rightarrow> (case eg_Wait c of None \<Rightarrow> None | Some r \<Rightarrow> Some (r, shared c)))"

section \<open>Running and closing\<close>

text \<open>
  The loop of \<^verbatim>\<open>Run\<close>'s goroutine that wraps the handler:
  \<^verbatim>\<open>
  last := h.handleFunc
  for i := len(s.opts.subscriptionInterceptors) - 1; i >= 0; i-- {
      last = s.opts.subscriptionInterceptors[i](&subscriptionInfo, last)
  }
  \<close>
  The counter of \<open>Run_chain_loop\<close> is \<open>i + 1\<close>, and \<open>last_h\<close> is the variable
  \<^verbatim>\<open>last\<close>. Every interceptor is called with the same pointer, in the world the
  calls before it have left. Beside the handler and the world the loop's state holds a
  record of the interceptor invocations made so far (the index, the pointer passed and the
  descriptor it pointed to at that moment), which the program does not keep: it is there
  to state how often and with what an interceptor is invoked.
\<close>

type_synonym invocation = "nat \<times> info_ptr \<times> SubscriptionInfo option"

fun Run_chain_loop ::
  "SubscriptionInterceptor list \<Rightarrow> info_ptr \<Rightarrow> nat
     \<Rightarrow> MessageHandler \<times> invocation list \<times> world
     \<Rightarrow> MessageHandler \<times> invocation list \<times> world" where
  "Run_chain_loop ics p 0 st = st"
| "Run_chain_loop ics p (Suc i) (last_h, invoked, w) =
     (case (ics ! i) p last_h w of
        (wrapped, w') \<Rightarrow> Run_chain_loop ics p i (wrapped, invoked @ [(i, p, infos w p)], w'))"

text \<open>
  The callback handed to \<^verbatim>\<open>Receive\<close>:
  \<^verbatim>\<open>func(ctx context.Context, m *pubsub.Message) { _ = last(ctx, m) }\<close>.
\<close>

definition Run_callback :: "MessageHandler \<Rightarrow> callback" where
  "Run_callback last_h ctx m w = snd (last_h ctx m w)"

text \<open>
  The goroutine \<^verbatim>\<open>Run\<close> starts for one registered handler, given the pointer to
  the descriptor made for it: build the chain, receive until \<^verbatim>\<open>Receive\<close> returns,
  log its error if it is not \<^verbatim>\<open>nil\<close>. The goroutine returns nothing; the model
  returns the world it leaves and the record of interceptor invocations. A goroutine is
  modelled by the effect of its whole run on the world it starts in.
\<close>

definition Run_goroutine ::
  "Subscriber \<Rightarrow> Context \<Rightarrow> subscriptionHandler \<Rightarrow> info_ptr \<Rightarrow> world
     \<Rightarrow> world \<times> invocation list" where
  "Run_goroutine s ctx h p w =
     (let ics = subscriptionInterceptors (opts s)
      in case Run_chain_loop ics p (length ics) (handleFunc h, [], w) of
           (last_h, invoked, w1) \<Rightarrow>
             (case Receive (subscription h) ctx (Run_callback last_h) w1 of
                (None, w') \<Rightarrow> (w', invoked)
              | (Some err, w') \<Rightarrow> (log_Printf err w', invoked)))"

text \<open>
  \<^verbatim>\<open>
  ctx, cancel := context.WithCancel(ctx)
  s.cancel = cancel
  for _, handler := range s.subscriptionHandlers {
      h := handler
      subscriptionInfo := SubscriptionInfo{SubscriptionID: h.subscription.ID()}
      go func() { ... }()
  }
  \<close>
  \<^verbatim>\<open>Run\<close> derives a cancellable context, stores its cancel function, and for every
  registered handler makes the descriptor and starts the goroutine. It returns at once: its
  results are the subscriber, the world (with the descriptors in the store), and the
  goroutines it started, by subscription id.
\<close>

definition Run ::
  "Subscriber \<Rightarrow> Context \<Rightarrow> world
     \<Rightarrow> Subscriber \<times> world \<times> (string \<rightharpoonup> (world \<Rightarrow> world \<times> invocation list))" where
  "Run s ctx0 w =
     (case WithCancel ctx0 w of
        ((ctx, cancel_fn), w1) \<Rightarrow>
          (let s1 = s\<lparr>cancel := Some cancel_fn\<rparr>;
               w2 = w1\<lparr>infos := (\<lambda>p. if fst p = cancel_fn
                                     then map_option (\<lambda>h. \<lparr>SubscriptionID = ID (subscription h)\<rparr>)
                                            (subscriptionHandlers s1 (snd p))
                                     else infos w1 p)\<rparr>
           in (s1, w2,
               \<lambda>k. map_option (\<lambda>h. Run_goroutine s1 ctx h (cancel_fn, k))
                      (subscriptionHandlers s1 k))))"

text \<open>
  Calling a function value that is \<^verbatim>\<open>nil\<close> panics; calling a cancel function marks
  its context cancelled, and calling it again changes nothing.
  \<^verbatim>\<open>
  func (s *Subscriber) Close() {
      if s.cancel != nil { s.cancel() }
  }
  \<close>
\<close>

datatype panic = NilFunctionCall

definition call_cancel :: "nat option \<Rightarrow> world \<Rightarrow> panic + world" where
  "call_cancel c w =
     (case c of None \<Rightarrow> Inl NilFunctionCall
      | Some i \<Rightarrow> Inr (w\<lparr>cancelled := insert i (cancelled w)\<rparr>))"

definition Close :: "Subscriber \<Rightarrow> world \<Rightarrow> panic + world" where
  "Close s w = (if cancel s \<noteq> None then call_cancel (cancel s) w else Inr w)"

section \<open>The auto-acknowledging interceptor\<close>

text \<open>
  \<^verbatim>\<open>
  func SubscriptionInterceptor() pm.SubscriptionInterceptor {
      return func(_ *pm.SubscriptionInfo, next pm.MessageHandler) pm.MessageHandler {
          return func(ctx context.Context, m *pubsub.Message) error {
              err := next(ctx, m)
              if err != nil { m.Nack() } else { m.Ack() }
              return err
          }
      }
  }
  \<close>
  The interceptor only returns a closure: in a chain it is
  \<open>pure_interceptor pm_autoack_SubscriptionInterceptor\<close>.
\<close>

definition pm_autoack_SubscriptionInterceptor ::
  "info_ptr \<Rightarrow> MessageHandler \<Rightarrow> MessageHandler" where
  "pm_autoack_SubscriptionInterceptor info next =
     (\<lambda>ctx m w.
        case next ctx m w of
          (err, w1) \<Rightarrow> (err, if err \<noteq> None then Nack m w1 else Ack m w1))"

section \<open>A subscription for concrete runs\<close>

text \<open>
  A subscription whose \<^verbatim>\<open>Receive\<close> hands the given messages to the callback one
  after the other and then returns the given result. It stands for the broker wherever a
  concrete run is evaluated.
\<close>

fun deliver :: "Message list \<Rightarrow> error option \<Rightarrow> Context \<Rightarrow> callback \<Rightarrow> world \<Rightarrow> error option \<times> world" where
  "deliver [] r ctx cb w = (r, w)"
| "deliver (m # ms) r ctx cb w = deliver ms r ctx cb (cb ctx m w)"

section \<open>The spec's form of the effective handler\<close>

text \<open>
  The spec writes the handler that runs for a subscription as \<open>I1(I2(\<dots>In(H)\<dots>))\<close>: the
  interceptors applied to the registered handler from the last to the first. \<open>effective\<close>
  is that expression, with the world each application runs in: the inner applications are
  made first. \<open>Run_chain_loop\<close> above is the loop of the source. \<open>finish\<close> is what the
  goroutine does once \<^verbatim>\<open>Receive\<close> has returned.
\<close>

fun effective ::
  "SubscriptionInterceptor list \<Rightarrow> info_ptr \<Rightarrow> MessageHandler \<Rightarrow> world
     \<Rightarrow> MessageHandler \<times> world" where
  "effective [] p H w = (H, w)"
| "effective (ic # ics) p H w = (case effective ics p H w of (inner, w1) \<Rightarrow> ic p inner w1)"

definition finish :: "error option \<times> world \<Rightarrow> world" where
  "finish rw = (case rw of (None, w') \<Rightarrow> w' | (Some err, w') \<Rightarrow> log_Printf err w')"

section \<open>Concrete inputs\<close>

text \<open>
  A handler that records its tag and the message's id and returns a fixed result, a
  subscription with a fixed delivery, an empty world and a message, as the package's tests
  build them; an interceptor that sets the attribute \<^verbatim>\<open>intercepted\<close>, as the two
  interceptors of \<^verbatim>\<open>TestSubscriber_Run\<close> do; and a handler that records that attribute.
\<close>

definition handler_of :: "string \<Rightarrow> error option \<Rightarrow> MessageHandler" where
  "handler_of tag r ctx m w = (r, w\<lparr>events := events w @ [UserEv (tag @ msg_ID m)]\<rparr>)"

definition sub_of :: "string \<Rightarrow> Message list \<Rightarrow> error option \<Rightarrow> pubsub_Subscriber" where
  "sub_of i ms r = \<lparr>ID = i, Receive = deliver ms r\<rparr>"

definition w0 :: world where
  "w0 = \<lparr>events = [], cancelled = {}, next_ctx = 0, infos = Map.empty\<rparr>"

definition msg :: "string \<Rightarrow> Message" where
  "msg i = \<lparr>msg_ID = i, Data = ''test'', Attributes = []\<rparr>"

definition set_intercepted :: "string \<Rightarrow> info_ptr \<Rightarrow> MessageHandler \<Rightarrow> MessageHandler" where
  "set_intercepted v info nxt = (\<lambda>ctx m w. nxt ctx (m\<lparr>Attributes := [(''intercepted'', v)]\<rparr>) w)"

definition attribute_handler :: MessageHandler where
  "attribute_handler ctx m w =
     (None, w\<lparr>events := events w @ [UserEv (case map_of (Attributes m) ''intercepted'' of
                                                None \<Rightarrow> [] | Some v \<Rightarrow> v)]\<rparr>)"

text \<open>
  An interceptor that, when it is called, writes a new subscription id into the descriptor
  it is given and returns the next handler as it is; and an interceptor whose handler runs
  the next handler and returns \<^verbatim>\<open>nil\<close> whatever that returned.
\<close>

definition rewrite_descriptor :: "string \<Rightarrow> SubscriptionInterceptor" where
  "rewrite_descriptor v info nxt w = (nxt, w\<lparr>infos := (infos w)(info \<mapsto> \<lparr>SubscriptionID = v\<rparr>)\<rparr>)"

definition swallow_errors :: "info_ptr \<Rightarrow> MessageHandler \<Rightarrow> MessageHandler" where
  "swallow_errors info nxt = (\<lambda>ctx m w. (None, snd (nxt ctx m w)))"

text \<open>What the handler stored under an id records when it is run on the message \<open>m\<close>.\<close>

definition stored_events :: "config \<Rightarrow> string \<Rightarrow> event list option" where
  "stored_events c i =
     map_option (\<lambda>h. events (snd (handleFunc h Background (msg ''m'') w0)))
       (subscriptionHandlers (shared c) i)"

text \<open>
  A subscriber on which \<^verbatim>\<open>orders\<close> has been registered, one on which
  \<^verbatim>\<open>billing\<close> has been registered, a map to register on the first
  whose first entry has the id \<^verbatim>\<open>orders\<close> again, and the configuration in which the
  goroutine of the first entry has returned its error and the goroutine of the second
  waits in \<^verbatim>\<open>Lock\<close>.
\<close>

definition registered_orders :: Subscriber where
  "registered_orders =
     snd (HandleSubscriptionFunc (sub_of ''orders'' [] None) (handler_of ''first:'' None)
            (NewSubscriber ''project'' []))"

definition billing_only :: Subscriber where
  "billing_only =
     snd (HandleSubscriptionFunc (sub_of ''billing'' [msg ''m2'', msg ''m3''] None)
            (handler_of ''third:'' None) (NewSubscriber ''project'' []))"

definition batch :: "(pubsub_Subscriber \<times> MessageHandler) list" where
  "batch = [(sub_of ''orders'' [] None, handler_of ''second:'' None),
            (sub_of ''billing'' [] None, handler_of ''third:'' None)]"

definition stuck_config :: config where
  "stuck_config =
     \<lparr>goroutines =
        [\<lparr>arg_subscription = sub_of ''orders'' [] None, arg_f = handler_of ''second:'' None,
          at_pc = Returned (Some (already_registered ''orders''))\<rparr>,
         \<lparr>arg_subscription = sub_of ''billing'' [] None, arg_f = handler_of ''third:'' None,
          at_pc = AtLockWait\<rparr>],
      shared = registered_orders\<lparr>mu := \<lparr>readers = 1, writer = True\<rparr>\<rparr>,
      eg_err = Some (already_registered ''orders'')\<rparr>"

text \<open>
  Subscribers as \<^verbatim>\<open>TestSubscriber_Run\<close> and the tests of the middleware set
  them up: one with the two attribute interceptors and \<^verbatim>\<open>orders\<close> registered with
  two messages to come; one with \<^verbatim>\<open>orders\<close>, whose \<^verbatim>\<open>Receive\<close> hands over one
  message and then fails, and \<^verbatim>\<open>billing\<close>, which receives two messages; one with a
  handler that fails on every message; one whose inner interceptor rewrites the descriptor.
\<close>

definition test_run_subscriber :: Subscriber where
  "test_run_subscriber =
     snd (HandleSubscriptionFunc (sub_of ''orders'' [msg ''m1'', msg ''m2''] None) attribute_handler
            (NewSubscriber ''project''
               [\<lambda>os. os\<lparr>subscriptionInterceptors :=
                          [pure_interceptor (set_intercepted ''abc''),
                           pure_interceptor (set_intercepted ''true'')]\<rparr>]))"

definition orders_and_billing :: Subscriber where
  "orders_and_billing =
     snd (HandleSubscriptionFunc (sub_of ''orders'' [msg ''m1''] (Some ''stream closed''))
            (handler_of ''first:'' None) billing_only)"

definition failing_orders :: Subscriber where
  "failing_orders =
     snd (HandleSubscriptionFunc (sub_of ''orders'' [msg ''m1'', msg ''m2''] None)
            (handler_of ''failed:'' (Some ''boom'')) (NewSubscriber ''project'' []))"

definition rewriting_subscriber :: Subscriber where
  "rewriting_subscriber =
     snd (HandleSubscriptionFunc (sub_of ''orders'' [] None) (handler_of ''first:'' None)
            (NewSubscriber ''project''
               [\<lambda>os. os\<lparr>subscriptionInterceptors :=
                          [pure_interceptor pm_autoack_SubscriptionInterceptor,
                           rewrite_descriptor ''rewritten'']\<rparr>]))"

section \<open>One call to HandleSubscriptionFunc\<close>

text \<open>
  The three ways a lone call can go, from a state in which no registration is inside its
  \<^verbatim>\<open>Lock\<close>: the id is taken, the id is free and no read lock is held, the id is
  free and a read lock is still held (which only an earlier rejected call can have left).
\<close>

lemma HandleSubscriptionFunc_taken:
  assumes "\<not> writer (mu s)" and "subscriptionHandlers s (ID sub) = Some h"
  shows "HandleSubscriptionFunc sub f s =
           (Returned (Some (already_registered (ID sub))),
            s\<lparr>mu := (mu s)\<lparr>readers := Suc (readers (mu s))\<rparr>\<rparr>)"
  using assms by (simp add: HandleSubscriptionFunc_def step_def eval_nat_numeral)

lemma HandleSubscriptionFunc_fresh:
  assumes "\<not> writer (mu s)" and "readers (mu s) = 0" and "subscriptionHandlers s (ID sub) = None"
  shows "HandleSubscriptionFunc sub f s =
           (Returned None,
            s\<lparr>subscriptionHandlers :=
                 (subscriptionHandlers s)(ID sub \<mapsto> \<lparr>subscription = sub, handleFunc = f\<rparr>)\<rparr>)"
  using assms by (simp add: HandleSubscriptionFunc_def step_def eval_nat_numeral)

lemma HandleSubscriptionFunc_fresh_blocked:
  assumes "\<not> writer (mu s)" and "readers (mu s) \<noteq> 0" and "subscriptionHandlers s (ID sub) = None"
  shows "HandleSubscriptionFunc sub f s = (AtLockWait, s\<lparr>mu := (mu s)\<lparr>writer := True\<rparr>\<rparr>)"
  using assms by (simp add: HandleSubscriptionFunc_def step_def eval_nat_numeral)

text \<open>Seven steps are enough: where \<open>run_alone 7\<close> stops, no further step is possible.\<close>

lemma run_alone_stops:
  "(case run_alone 7 \<lparr>arg_subscription = sub, arg_f = f, at_pc = AtRLock\<rparr> s of
      (g, s') \<Rightarrow> step g s') = None"
proof (cases "writer (mu s)")
  case True
  then show ?thesis by (simp add: step_def eval_nat_numeral)
next
  case nw: False
  show ?thesis
  proof (cases "subscriptionHandlers s (ID sub)")
    case (Some h)
    with nw show ?thesis by (simp add: step_def eval_nat_numeral)
  next
    case None
    show ?thesis
    proof (cases "readers (mu s) = 0")
      case True
      with nw None show ?thesis by (simp add: step_def eval_nat_numeral)
    next
      case False
      with nw None show ?thesis by (simp add: step_def eval_nat_numeral)
    qed
  qed
qed

lemma registered_orders_eq:
  "registered_orders =
     (NewSubscriber ''project'' [])\<lparr>subscriptionHandlers :=
        [''orders'' \<mapsto> \<lparr>subscription = sub_of ''orders'' [] None,
                          handleFunc = handler_of ''first:'' None\<rparr>]\<rparr>"
  unfolding registered_orders_def
  by (subst HandleSubscriptionFunc_fresh) (simp_all add: NewSubscriber_def sub_of_def)

lemma billing_only_eq:
  "billing_only =
     (NewSubscriber ''project'' [])\<lparr>subscriptionHandlers :=
        [''billing'' \<mapsto> \<lparr>subscription = sub_of ''billing'' [msg ''m2'', msg ''m3''] None,
                           handleFunc = handler_of ''third:'' None\<rparr>]\<rparr>"
  unfolding billing_only_def
  by (subst HandleSubscriptionFunc_fresh) (simp_all add: NewSubscriber_def sub_of_def)

text \<open>
  The read lock a rejected call leaves behind is never released, so the next registration
  of a free id, even by the same goroutine, waits in \<^verbatim>\<open>Lock\<close> and does not return.
\<close>

lemma registration_after_rejection_blocks:
  "fst (HandleSubscriptionFunc (sub_of ''billing'' [] None) (handler_of ''third:'' None)
          (snd (HandleSubscriptionFunc (sub_of ''orders'' [] None) (handler_of ''second:'' None)
                  registered_orders)))
     = AtLockWait"
proof -
  have rejected:
    "snd (HandleSubscriptionFunc (sub_of ''orders'' [] None) (handler_of ''second:'' None)
            registered_orders)
       = registered_orders\<lparr>mu := \<lparr>readers = 1, writer = False\<rparr>\<rparr>"
    by (subst HandleSubscriptionFunc_taken [where h = "\<lparr>subscription = sub_of ''orders'' [] None,
          handleFunc = handler_of ''first:'' None\<rparr>"])
       (simp_all add: registered_orders_eq NewSubscriber_def sub_of_def)
  show ?thesis
    unfolding rejected
    by (subst HandleSubscriptionFunc_fresh_blocked)
       (simp_all add: registered_orders_eq NewSubscriber_def sub_of_def)
qed

section \<open>Schedules\<close>

lemma run_sched_append:
  "run_sched (xs @ ys) c = (case run_sched xs c of None \<Rightarrow> None | Some c' \<Rightarrow> run_sched ys c')"
  by (induction xs arbitrary: c) (simp_all split: option.splits)

lemma run_sched_stuck:
  assumes "\<And>i. sched_step i c = None"
  shows "run_sched js c = (if js = [] then Some c else None)"
  using assms by (cases js) simp_all

lemma sched_step_out_of_range: "length (goroutines c) \<le> i \<Longrightarrow> sched_step i c = None"
  by (simp add: sched_step_def)

lemma reach_stuck_config:
  "run_sched [0, 0, 1, 1, 1, 1] (start_calls batch registered_orders)
     = Some stuck_config"
  by (simp add: registered_orders_eq batch_def stuck_config_def sched_step_def step_def
      NewSubscriber_def start_calls_def sub_of_def)

lemma stuck_config_stuck: "sched_step i stuck_config = None"
proof -
  consider "i = 0" | "i = 1" | "2 \<le> i" by linarith
  then show ?thesis
  proof cases
    case 1
    then show ?thesis by (simp add: sched_step_def step_def stuck_config_def)
  next
    case 2
    then show ?thesis by (simp add: sched_step_def step_def stuck_config_def)
  next
    case 3
    then show ?thesis by (simp add: sched_step_out_of_range stuck_config_def)
  qed
qed

text \<open>
  In the other order, the second entry's goroutine first, the same call returns the
  duplicate's error and \<^verbatim>\<open>billing\<close> stays registered.
\<close>

lemma batch_other_order:
  "map_option (\<lambda>(r, s). (r, dom (subscriptionHandlers s), readers (mu s)))
     (HandleSubscriptionFuncMap [1, 1, 1, 1, 1, 1, 1, 0, 0] batch registered_orders)
   = Some (Some (already_registered ''orders''), {''orders'', ''billing''}, 1)"
  by (simp add: registered_orders_eq batch_def sched_step_def step_def HandleSubscriptionFuncMap_def
      NewSubscriber_def start_calls_def sub_of_def eg_Wait_def returned_def
      insert_commute)

lemma test_run_subscriber_eq:
  "test_run_subscriber =
     \<lparr>mu = \<lparr>readers = 0, writer = False\<rparr>,
      opts = \<lparr>subscriptionInterceptors =
                [pure_interceptor (set_intercepted ''abc''),
                 pure_interceptor (set_intercepted ''true'')]\<rparr>,
      pubsubClient = ''project'',
      subscriptionHandlers =
        [''orders'' \<mapsto> \<lparr>subscription = sub_of ''orders'' [msg ''m1'', msg ''m2''] None,
                          handleFunc = attribute_handler\<rparr>],
      cancel = None\<rparr>"
  unfolding test_run_subscriber_def
  by (subst HandleSubscriptionFunc_fresh) (simp_all add: NewSubscriber_def sub_of_def)

lemma orders_and_billing_eq:
  "orders_and_billing =
     (NewSubscriber ''project'' [])\<lparr>subscriptionHandlers :=
        [''billing'' \<mapsto> \<lparr>subscription = sub_of ''billing'' [msg ''m2'', msg ''m3''] None,
                           handleFunc = handler_of ''third:'' None\<rparr>,
         ''orders'' \<mapsto> \<lparr>subscription = sub_of ''orders'' [msg ''m1''] (Some ''stream closed''),
                          handleFunc = handler_of ''first:'' None\<rparr>]\<rparr>"
  unfolding orders_and_billing_def
  by (subst HandleSubscriptionFunc_fresh) (simp_all add: billing_only_eq NewSubscriber_def sub_of_def)

lemma failing_orders_eq:
  "failing_orders =
     (NewSubscriber ''project'' [])\<lparr>subscriptionHandlers :=
        [''orders'' \<mapsto> \<lparr>subscription = sub_of ''orders'' [msg ''m1'', msg ''m2''] None,
                          handleFunc = handler_of ''failed:'' (Some ''boom'')\<rparr>]\<rparr>"
  unfolding failing_orders_def
  by (subst HandleSubscriptionFunc_fresh) (simp_all add: NewSubscriber_def sub_of_def)

lemma rewriting_subscriber_eq:
  "rewriting_subscriber =
     \<lparr>mu = \<lparr>readers = 0, writer = False\<rparr>,
      opts = \<lparr>subscriptionInterceptors =
                [pure_interceptor pm_autoack_SubscriptionInterceptor,
                 rewrite_descriptor ''rewritten'']\<rparr>,
      pubsubClient = ''project'',
      subscriptionHandlers =
        [''orders'' \<mapsto> \<lparr>subscription = sub_of ''orders'' [] None,
                          handleFunc = handler_of ''first:'' None\<rparr>],
      cancel = None\<rparr>"
  unfolding rewriting_subscriber_def
  by (subst HandleSubscriptionFunc_fresh) (simp_all add: NewSubscriber_def sub_of_def)

section \<open>The chain and the goroutine\<close>

lemma effective_append:
  "effective (xs @ ys) p H w =
     (case effective ys p H w of (inner, w1) \<Rightarrow> effective xs p inner w1)"
  by (induction xs) (simp_all split: prod.splits)

lemma effective_pure:
  "effective (map pure_interceptor js) p H w = (foldr (\<lambda>j nxt. j p nxt) js H, w)"
  by (induction js) (simp_all add: pure_interceptor_def)

lemma chain_loop_take:
  "k \<le> length ics \<Longrightarrow>
     Run_chain_loop ics p k (lh, cs, w) =
       (fst (effective (take k ics) p lh w),
        cs @ map (\<lambda>i. (i, p, infos (snd (effective (drop (Suc i) (take k ics)) p lh w)) p))
               (rev [0..<k]),
        snd (effective (take k ics) p lh w))"
proof (induction k arbitrary: lh cs w)
  case 0
  then show ?case by simp
next
  case (Suc k)
  obtain wrapped w' where call: "(ics ! k) p lh w = (wrapped, w')"
    by (cases "(ics ! k) p lh w")
  from Suc.prems have lt: "k < length ics" by simp
  then have tk: "take (Suc k) ics = take k ics @ [ics ! k]"
    by (simp add: take_Suc_conv_app_nth)
  have whole: "effective (take (Suc k) ics) p lh w = effective (take k ics) p wrapped w'"
    by (simp add: tk effective_append call)
  have below: "effective (drop (Suc i) (take (Suc k) ics)) p lh w
                 = effective (drop (Suc i) (take k ics)) p wrapped w'" if "i < k" for i
  proof -
    from that lt have "drop (Suc i) (take (Suc k) ics) = drop (Suc i) (take k ics) @ [ics ! k]"
      by (simp add: tk)
    then show ?thesis by (simp add: effective_append call)
  qed
  have top: "effective (drop (Suc k) (take (Suc k) ics)) p lh w = (lh, w)"
    by simp
  have rest: "map (\<lambda>i. (i, p, infos (snd (effective (drop (Suc i) (take (Suc k) ics)) p lh w)) p))
                (rev [0..<k])
              = map (\<lambda>i. (i, p, infos (snd (effective (drop (Suc i) (take k ics)) p wrapped w')) p))
                  (rev [0..<k])"
    by (rule map_cong) (simp_all add: below)
  from lt have "k \<le> length ics" by simp
  from Suc.IH [OF this, of wrapped "cs @ [(k, p, infos w p)]" w']
  show ?case
    by (simp add: call whole rest del: drop_take)
qed

lemma Run_callback_eq: "Run_callback E = (\<lambda>c m wm. snd (E c m wm))"
  by (intro ext) (simp add: Run_callback_def)

lemma Run_goroutine_eq:
  "Run_goroutine s ctx h p w =
     (case effective (subscriptionInterceptors (opts s)) p (handleFunc h) w of
        (E, w1) \<Rightarrow>
          (finish (Receive (subscription h) ctx (\<lambda>c m wm. snd (E c m wm)) w1),
           map (\<lambda>i. (i, p, infos (snd (effective (drop (Suc i) (subscriptionInterceptors (opts s)))
                                          p (handleFunc h) w)) p))
             (rev [0..<length (subscriptionInterceptors (opts s))])))"
  using chain_loop_take [of "length (subscriptionInterceptors (opts s))"
      "subscriptionInterceptors (opts s)" p "handleFunc h" "[]" w]
  by (simp add: Run_goroutine_def Run_callback_eq finish_def Let_def
      split: prod.splits option.splits)

lemma Run_goroutine_opts:
  "opts s = opts s' \<Longrightarrow> Run_goroutine s ctx = Run_goroutine s' ctx"
  by (rule ext)+ (simp add: Run_goroutine_eq)

lemma Run_started:
  "snd (snd (Run s parent w)) k
     = map_option (\<lambda>h. Run_goroutine (s\<lparr>cancel := Some (next_ctx w)\<rparr>)
                          (CancelCtx (next_ctx w) parent) h (next_ctx w, k))
         (subscriptionHandlers s k)"
  by (simp add: Run_def WithCancel_def Let_def)

lemma effective_keeps_descriptor:
  assumes "\<forall>ic \<in> set ics. \<forall>nxt wi. infos (snd (ic p nxt wi)) p = infos wi p"
  shows "infos (snd (effective ics p H w)) p = infos w p"
  using assms
proof (induction ics)
  case Nil
  then show ?case by simp
next
  case (Cons ic ics)
  obtain inner w1 where e: "effective ics p H w = (inner, w1)"
    by (cases "effective ics p H w")
  from Cons have "infos w1 p = infos w p" by (simp add: e)
  moreover from Cons.prems have "infos (snd (ic p inner w1)) p = infos w1 p" by simp
  ultimately show ?case by (simp add: e)
qed

lemma ctx_done_cancelled:
  "cancelled w = cancelled w' \<Longrightarrow> ctx_done w c = ctx_done w' c"
  by (induction c) simp_all

lemma deliver_foldl:
  "deliver ms r ctx cb w = (r, foldl (\<lambda>w m. cb ctx m w) w ms)"
  by (induction ms arbitrary: w) simp_all

text \<open>
  \<^verbatim>\<open>Close\<close> after \<^verbatim>\<open>Run\<close> calls the cancel function of the one context that
  every goroutine of that \<^verbatim>\<open>Run\<close> was started with.
\<close>

lemma Close_after_Run:
  "Close (fst (Run s ctx0 w)) w1 = Inr (w1\<lparr>cancelled := insert (next_ctx w) (cancelled w1)\<rparr>)
   \<and> ctx_done (w1\<lparr>cancelled := insert (next_ctx w) (cancelled w1)\<rparr>) (CancelCtx (next_ctx w) ctx0)
   \<and> snd (snd (Run s ctx0 w)) k
       = map_option (\<lambda>h. Run_goroutine (fst (Run s ctx0 w)) (CancelCtx (next_ctx w) ctx0) h
                            (next_ctx w, k))
           (subscriptionHandlers s k)"
  by (simp add: Close_def Run_def WithCancel_def call_cancel_def Let_def)

section \<open>The subscriber against its specification\<close>

text \<open>
  C1. Concurrent calls of \<^verbatim>\<open>HandleSubscriptionFunc\<close> with one id: exactly one is
  to succeed, and its handler is never to be overwritten. The code looks the id up under the
  read lock, releases it, and stores under the write lock without looking again. Two calls
  for \<^verbatim>\<open>orders\<close> on a new subscriber, each past its lookup before the other
  stores: after the first call has returned \<^verbatim>\<open>nil\<close> its handler is the stored one;
  then the second call stores its own handler over it and returns \<^verbatim>\<open>nil\<close> as well.
\<close>

theorem C1_concurrent_duplicates_both_succeed:
  "map_option (\<lambda>c. (map at_pc (goroutines c), stored_events c ''orders''))
     (run_sched [0, 0, 0, 1, 1, 1, 0, 0, 0, 0]
        (start_calls
           [(sub_of ''orders'' [] None, handler_of ''first:'' None),
            (sub_of ''orders'' [] None, handler_of ''second:'' None)]
           (NewSubscriber ''project'' [])))
     = Some ([Returned None, AtLock], Some [UserEv ''first:m''])
   \<and>
   map_option (\<lambda>c. (map at_pc (goroutines c), stored_events c ''orders''))
     (run_sched [0, 0, 0, 1, 1, 1, 0, 0, 0, 0, 1, 1, 1, 1]
        (start_calls
           [(sub_of ''orders'' [] None, handler_of ''first:'' None),
            (sub_of ''orders'' [] None, handler_of ''second:'' None)]
           (NewSubscriber ''project'' [])))
     = Some ([Returned None, Returned None], Some [UserEv ''second:m''])"
  by (simp add: sched_step_def step_def NewSubscriber_def start_calls_def
      sub_of_def handler_of_def w0_def msg_def stored_events_def)

text \<open>
  C2. For every list of interceptors and every handler registered for a subscription, the
  goroutine that \<^verbatim>\<open>Run\<close> starts for that subscription builds
  \<open>I1(I2(\<dots>In(H)\<dots>))\<close>, the first interceptor outermost, and hands \<^verbatim>\<open>Receive\<close> the
  callback that runs that handler on each message. With no interceptor the handler is
  \<open>H\<close>, with one it is \<open>I1(H)\<close>. The chain is built before \<^verbatim>\<open>Receive\<close> is called
  and not by the callback: whatever is delivered, the interceptors are invoked once each,
  from the last to the first. \<^verbatim>\<open>Run\<close> starts such a goroutine for the registered
  subscriptions and for nothing else.
\<close>

theorem C2_chain_is_first_interceptor_outermost:
  assumes "subscriptionHandlers s k = Some h"
  shows "(case snd (snd (Run s parent w)) k of
            None \<Rightarrow> False
          | Some g \<Rightarrow>
              (\<forall>w'. g w' =
                 (case effective (subscriptionInterceptors (opts s)) (next_ctx w, k) (handleFunc h) w' of
                    (E, w1) \<Rightarrow>
                      (finish (Receive (subscription h) (CancelCtx (next_ctx w) parent)
                                 (\<lambda>c m wm. snd (E c m wm)) w1),
                       map (\<lambda>i. (i, (next_ctx w, k),
                                  infos (snd (effective (drop (Suc i) (subscriptionInterceptors (opts s)))
                                                (next_ctx w, k) (handleFunc h) w')) (next_ctx w, k)))
                         (rev [0..<length (subscriptionInterceptors (opts s))])))))
       \<and> dom (snd (snd (Run s parent w))) = dom (subscriptionHandlers s)
       \<and> (case Run_chain_loop ics p (length ics) (H, [], w) of (lh, invoked, w1) \<Rightarrow> (lh, w1))
           = effective ics p H w
       \<and> effective [] p H w = (H, w)
       \<and> effective [i1] p H w = i1 p H w
       \<and> effective [i1, i2, i3] p H w
           = (case i3 p H w of (h3, w3) \<Rightarrow> (case i2 p h3 w3 of (h2, w2) \<Rightarrow> i1 p h2 w2))
       \<and> effective (map pure_interceptor [j1, j2, j3]) p H w = (j1 p (j2 p (j3 p H)), w)"
proof -
  have started: "dom (snd (snd (Run s parent w))) = dom (subscriptionHandlers s)"
    by (auto simp add: Run_started dom_def)
  have loop: "(case Run_chain_loop ics p (length ics) (H, [], w) of (lh, invoked, w1) \<Rightarrow> (lh, w1))
           = effective ics p H w"
    using chain_loop_take [of "length ics" ics p H "[]" w] by simp
  have three: "effective [i1, i2, i3] p H w
           = (case i3 p H w of (h3, w3) \<Rightarrow> (case i2 p h3 w3 of (h2, w2) \<Rightarrow> i1 p h2 w2))"
    by (simp split: prod.splits)
  have pure: "effective (map pure_interceptor [j1, j2, j3]) p H w = (j1 p (j2 p (j3 p H)), w)"
    by (simp add: pure_interceptor_def)
  from assms started loop three pure show ?thesis
    by (simp add: Run_started Run_goroutine_eq)
qed

theorem C2_chain_is_first_interceptor_outermost_witness:
  "subscriptionHandlers test_run_subscriber ''orders''
     = Some \<lparr>subscription = sub_of ''orders'' [msg ''m1'', msg ''m2''] None,
             handleFunc = attribute_handler\<rparr>
   \<and> (case snd (snd (Run test_run_subscriber Background w0)) ''orders'' of
         None \<Rightarrow> False
       | Some g \<Rightarrow>
           events (fst (g (fst (snd (Run test_run_subscriber Background w0)))))
             = [UserEv ''true'', UserEv ''true'']
           \<and> snd (g (fst (snd (Run test_run_subscriber Background w0))))
               = [(1, (0, ''orders''), Some \<lparr>SubscriptionID = ''orders''\<rparr>),
                  (0, (0, ''orders''), Some \<lparr>SubscriptionID = ''orders''\<rparr>)])
   \<and> dom (snd (snd (Run test_run_subscriber Background w0))) = {''orders''}"
proof -
  have h: "subscriptionHandlers test_run_subscriber ''orders''
     = Some \<lparr>subscription = sub_of ''orders'' [msg ''m1'', msg ''m2''] None,
             handleFunc = attribute_handler\<rparr>"
    by (simp add: test_run_subscriber_eq)
  show ?thesis
    using h C2_chain_is_first_interceptor_outermost [OF h, where parent = Background and w = w0]
    by (simp add: Run_started Run_def WithCancel_def Let_def test_run_subscriber_eq
        pure_interceptor_def finish_def sub_of_def msg_def w0_def set_intercepted_def
        attribute_handler_def eval_nat_numeral)
qed

text \<open>
  C3. In every state in which a handler is registered under the id, a call of
  \<^verbatim>\<open>HandleSubscriptionFunc\<close> for that id is to return the error that names the id.
  Where no registration is inside its \<^verbatim>\<open>Lock\<close> the call does so and leaves the map as
  it was (\<open>HandleSubscriptionFunc_taken\<close>), but it returns with its read lock held. The
  subscriber reaches a state where the call does not return by its own calls: on a
  subscriber with \<^verbatim>\<open>orders\<close> registered, a call for \<^verbatim>\<open>orders\<close> is rejected
  and leaves its read lock; a call for \<^verbatim>\<open>billing\<close> then announces itself in
  \<^verbatim>\<open>Lock\<close> and waits for that read lock for ever. In that state \<^verbatim>\<open>orders\<close> is
  registered, and a further call for \<^verbatim>\<open>orders\<close>, with any handler, waits in
  \<^verbatim>\<open>RLock\<close> behind the announced writer: it cannot take a step, nor can any other
  goroutine, so it never returns its error.
\<close>

theorem C3_duplicate_call_waits_behind_leaked_read_lock:
  "fst (HandleSubscriptionFunc (sub_of ''orders'' [] None) (handler_of ''second:'' None)
          registered_orders)
     = Returned (Some (already_registered ''orders''))
   \<and> HandleSubscriptionFunc (sub_of ''billing'' [] None) (handler_of ''third:'' None)
        (snd (HandleSubscriptionFunc (sub_of ''orders'' [] None) (handler_of ''second:'' None)
                registered_orders))
       = (AtLockWait, shared stuck_config)
   \<and> subscriptionHandlers (shared stuck_config) ''orders''
       = Some \<lparr>subscription = sub_of ''orders'' [] None, handleFunc = handler_of ''first:'' None\<rparr>
   \<and> HandleSubscriptionFunc (sub_of ''orders'' [] None) f (shared stuck_config)
       = (AtRLock, shared stuck_config)
   \<and> (\<forall>i. sched_step i
              (stuck_config\<lparr>goroutines := goroutines stuck_config
                 @ [\<lparr>arg_subscription = sub_of ''orders'' [] None, arg_f = f, at_pc = AtRLock\<rparr>]\<rparr>)
            = None)"
proof -
  have rejected:
    "HandleSubscriptionFunc (sub_of ''orders'' [] None) (handler_of ''second:'' None)
       registered_orders
       = (Returned (Some (already_registered ''orders'')),
          registered_orders\<lparr>mu := \<lparr>readers = 1, writer = False\<rparr>\<rparr>)"
    by (subst HandleSubscriptionFunc_taken [where h = "\<lparr>subscription = sub_of ''orders'' [] None,
          handleFunc = handler_of ''first:'' None\<rparr>"])
       (simp_all add: registered_orders_eq NewSubscriber_def sub_of_def)
  have pending:
    "HandleSubscriptionFunc (sub_of ''billing'' [] None) (handler_of ''third:'' None)
       (registered_orders\<lparr>mu := \<lparr>readers = 1, writer = False\<rparr>\<rparr>)
       = (AtLockWait, shared stuck_config)"
    by (subst HandleSubscriptionFunc_fresh_blocked)
       (simp_all add: registered_orders_eq NewSubscriber_def sub_of_def stuck_config_def)
  have held: "subscriptionHandlers (shared stuck_config) ''orders''
       = Some \<lparr>subscription = sub_of ''orders'' [] None, handleFunc = handler_of ''first:'' None\<rparr>"
    by (simp add: stuck_config_def registered_orders_eq NewSubscriber_def)
  have waits: "HandleSubscriptionFunc (sub_of ''orders'' [] None) f (shared stuck_config)
       = (AtRLock, shared stuck_config)"
    by (simp add: HandleSubscriptionFunc_def step_def eval_nat_numeral stuck_config_def)
  have nobody: "sched_step i
              (stuck_config\<lparr>goroutines := goroutines stuck_config
                 @ [\<lparr>arg_subscription = sub_of ''orders'' [] None, arg_f = f, at_pc = AtRLock\<rparr>]\<rparr>)
            = None" for i
  proof -
    consider "i = 0" | "i = 1" | "i = 2" | "3 \<le> i" by linarith
    then show ?thesis
    proof cases
      case 1
      then show ?thesis by (simp add: sched_step_def step_def stuck_config_def)
    next
      case 2
      then show ?thesis by (simp add: sched_step_def step_def stuck_config_def)
    next
      case 3
      then show ?thesis by (simp add: sched_step_def step_def stuck_config_def)
    next
      case 4
      then show ?thesis by (simp add: sched_step_out_of_range stuck_config_def)
    qed
  qed
  show ?thesis
    using rejected pending held waits nobody by simp
qed

text \<open>
  C5. \<^verbatim>\<open>SubscriptionInfo\<close> holds the subscription id of the registration and nothing
  else: it has no topic id. \<^verbatim>\<open>Run\<close> makes one descriptor per registered
  subscription, with the id of that subscription, and the goroutine passes a pointer to
  that one descriptor to every interceptor invocation of its chain. The descriptor is not
  immutable: whoever holds the pointer can write it, and an interceptor finds in it what
  the interceptors invoked before it have left. The subscriber itself does not write: when
  no interceptor of the chain writes the descriptor, every invocation finds it as it was
  when the goroutine started, and after \<^verbatim>\<open>Receive\<close> has returned the goroutine
  leaves it as \<^verbatim>\<open>Receive\<close> left it.
\<close>

theorem C5_descriptor_is_made_by_Run_and_passed_by_pointer:
  assumes "subscriptionHandlers s k = Some h"
  shows "infos (fst (snd (Run s parent w))) (next_ctx w, k)
           = Some \<lparr>SubscriptionID = ID (subscription h)\<rparr>
       \<and> (case snd (snd (Run s parent w)) k of
             None \<Rightarrow> False
           | Some g \<Rightarrow>
               (\<forall>w'. snd (g w')
                        = map (\<lambda>i. (i, (next_ctx w, k),
                                   infos (snd (effective (drop (Suc i) (subscriptionInterceptors (opts s)))
                                                 (next_ctx w, k) (handleFunc h) w')) (next_ctx w, k)))
                            (rev [0..<length (subscriptionInterceptors (opts s))])
                    \<and> map (\<lambda>v. fst (snd v)) (snd (g w'))
                        = replicate (length (subscriptionInterceptors (opts s))) (next_ctx w, k)
                    \<and> ((\<forall>ic \<in> set (subscriptionInterceptors (opts s)). \<forall>nxt wi.
                            infos (snd (ic (next_ctx w, k) nxt wi)) (next_ctx w, k)
                              = infos wi (next_ctx w, k))
                         \<longrightarrow> map (\<lambda>v. snd (snd v)) (snd (g w'))
                               = replicate (length (subscriptionInterceptors (opts s)))
                                   (infos w' (next_ctx w, k)))
                    \<and> (case effective (subscriptionInterceptors (opts s)) (next_ctx w, k)
                               (handleFunc h) w' of
                          (E, w1) \<Rightarrow>
                            infos (fst (g w')) (next_ctx w, k)
                              = infos (snd (Receive (subscription h) (CancelCtx (next_ctx w) parent)
                                              (\<lambda>c m wm. snd (E c m wm)) w1))
                                  (next_ctx w, k))))"
proof -
  let ?ics = "subscriptionInterceptors (opts s)"
  let ?p = "(next_ctx w, k)"
  have made: "infos (fst (snd (Run s parent w))) ?p = Some \<lparr>SubscriptionID = ID (subscription h)\<rparr>"
    using assms by (simp add: Run_def WithCancel_def Let_def)
  have same: "infos (snd (effective (drop (Suc i) ?ics) ?p (handleFunc h) w')) ?p = infos w' ?p"
    if "\<forall>ic \<in> set ?ics. \<forall>nxt wi. infos (snd (ic ?p nxt wi)) ?p = infos wi ?p" for i w'
  proof (rule effective_keeps_descriptor)
    from that show "\<forall>ic \<in> set (drop (Suc i) ?ics). \<forall>nxt wi. infos (snd (ic ?p nxt wi)) ?p = infos wi ?p"
      by (meson in_set_dropD)
  qed
  have left: "infos (finish rw) q = infos (snd rw) q" for rw q
    by (cases rw) (simp add: finish_def log_Printf_def split: option.splits)
  show ?thesis
    using assms made
    by (simp add: Run_started Run_goroutine_eq comp_def map_replicate_const same left
        split: prod.splits)
qed

theorem C5_descriptor_is_made_by_Run_witness:
  "subscriptionHandlers test_run_subscriber ''orders''
     = Some \<lparr>subscription = sub_of ''orders'' [msg ''m1'', msg ''m2''] None,
             handleFunc = attribute_handler\<rparr>
   \<and> list_all (\<lambda>ic. \<forall>nxt wi. infos (snd (ic (0, ''orders'') nxt wi)) (0, ''orders'')
                                   = infos wi (0, ''orders''))
        (subscriptionInterceptors (opts test_run_subscriber))
   \<and> infos (fst (snd (Run test_run_subscriber Background w0))) (0, ''orders'')
       = Some \<lparr>SubscriptionID = ''orders''\<rparr>
   \<and> (case snd (snd (Run test_run_subscriber Background w0)) ''orders'' of
         None \<Rightarrow> False
       | Some g \<Rightarrow>
           map (\<lambda>v. fst (snd v)) (snd (g (fst (snd (Run test_run_subscriber Background w0)))))
             = [(0, ''orders''), (0, ''orders'')]
           \<and> map (\<lambda>v. snd (snd v)) (snd (g (fst (snd (Run test_run_subscriber Background w0)))))
               = [Some \<lparr>SubscriptionID = ''orders''\<rparr>, Some \<lparr>SubscriptionID = ''orders''\<rparr>]
           \<and> infos (fst (g (fst (snd (Run test_run_subscriber Background w0))))) (0, ''orders'')
               = Some \<lparr>SubscriptionID = ''orders''\<rparr>)"
proof -
  have h: "subscriptionHandlers test_run_subscriber ''orders''
     = Some \<lparr>subscription = sub_of ''orders'' [msg ''m1'', msg ''m2''] None,
             handleFunc = attribute_handler\<rparr>"
    by (simp add: test_run_subscriber_eq)
  show ?thesis
    using h C5_descriptor_is_made_by_Run_and_passed_by_pointer [OF h, where parent = Background
        and w = w0]
    by (simp add: Run_started Run_def WithCancel_def Let_def test_run_subscriber_eq
        Run_goroutine_eq pure_interceptor_def finish_def sub_of_def msg_def w0_def
        set_intercepted_def attribute_handler_def eval_nat_numeral)
qed

text \<open>
  C5 as the spec states it has a topic id beside the subscription id in the descriptor, and
  has the descriptor immutable. With a chain whose inner interceptor writes a new id into
  the descriptor it is given, the outer interceptor of \<^verbatim>\<open>orders\<close> is invoked with the
  rewritten descriptor and the goroutine leaves it rewritten; and no two descriptors with
  the same subscription id differ, so a descriptor holds no topic id.
\<close>

theorem C5_descriptor_is_written_and_has_no_topic_counterexample:
  "(case snd (snd (Run rewriting_subscriber Background w0)) ''orders'' of
      None \<Rightarrow> False
    | Some g \<Rightarrow>
        snd (g (fst (snd (Run rewriting_subscriber Background w0))))
          = [(1, (0, ''orders''), Some \<lparr>SubscriptionID = ''orders''\<rparr>),
             (0, (0, ''orders''), Some \<lparr>SubscriptionID = ''rewritten''\<rparr>)]
        \<and> infos (fst (g (fst (snd (Run rewriting_subscriber Background w0))))) (0, ''orders'')
            = Some \<lparr>SubscriptionID = ''rewritten''\<rparr>)
   \<and> \<not> (\<exists>a b :: SubscriptionInfo. SubscriptionID a = SubscriptionID b \<and> a \<noteq> b)"
  by (simp add: Run_started Run_def WithCancel_def Let_def rewriting_subscriber_eq
      Run_goroutine_eq pure_interceptor_def rewrite_descriptor_def finish_def sub_of_def
      w0_def eval_nat_numeral)

text \<open>
  C6. \<^verbatim>\<open>HandleSubscriptionFuncMap\<close> is to return an error exactly when one of its
  registrations fails. On a subscriber that has \<^verbatim>\<open>orders\<close> registered, with a map
  of \<^verbatim>\<open>orders\<close> and \<^verbatim>\<open>billing\<close>: the goroutine of \<^verbatim>\<open>orders\<close> fails and
  returns with the read lock held; the goroutine of \<^verbatim>\<open>billing\<close> then waits in
  \<^verbatim>\<open>Lock\<close> for a read lock nobody releases. That schedule is a run of the
  code; in the state it reaches no goroutine can take a step and one has not returned, so
  \<^verbatim>\<open>eg.Wait()\<close> does not return, however the schedule is continued.
\<close>

theorem C6_rejected_entry_blocks_the_call:
  "run_sched [0, 0, 1, 1, 1, 1] (start_calls batch registered_orders) = Some stuck_config
   \<and> map at_pc (goroutines stuck_config)
       = [Returned (Some (already_registered ''orders'')), AtLockWait]
   \<and> readers (mu (shared stuck_config)) = 1
   \<and> (\<forall>i. sched_step i stuck_config = None)
   \<and> eg_Wait stuck_config = None
   \<and> (\<forall>rest. HandleSubscriptionFuncMap ([0, 0, 1, 1, 1, 1] @ rest) batch registered_orders = None)"
proof -
  have run: "\<And>rest. run_sched ([0, 0, 1, 1, 1, 1] @ rest) (start_calls batch registered_orders)
          = (if rest = [] then Some stuck_config else None)"
    by (simp only: run_sched_append reach_stuck_config option.case
        run_sched_stuck [OF stuck_config_stuck])
  have waits: "eg_Wait stuck_config = None"
    by (simp add: eg_Wait_def stuck_config_def returned_def)
  have "\<And>rest. HandleSubscriptionFuncMap ([0, 0, 1, 1, 1, 1] @ rest) batch registered_orders = None"
    using run waits by (simp add: HandleSubscriptionFuncMap_def)
  moreover have "map at_pc (goroutines stuck_config)
       = [Returned (Some (already_registered ''orders'')), AtLockWait]"
    by (simp add: stuck_config_def)
  moreover have "readers (mu (shared stuck_config)) = 1"
    by (simp add: stuck_config_def)
  ultimately show ?thesis
    using reach_stuck_config stuck_config_stuck waits by simp
qed

text \<open>
  C7. When \<^verbatim>\<open>Receive\<close> of a subscription returns an error, the goroutine that
  \<^verbatim>\<open>Run\<close> started for it logs the error and ends: the world it leaves is the one
  \<^verbatim>\<open>Receive\<close> left with the log line added. It cancels no context, so the context
  the other goroutines received with is done afterwards only if it was before. The
  goroutine \<^verbatim>\<open>Run\<close> started for another registered subscription, run in the world
  the failed one leaves, builds its own chain and receives with its own callback: the
  failure reaches it as the log line in the trace and as nothing else. \<^verbatim>\<open>Run\<close> has
  returned before, with the subscriber and a world to which it has added no event: it has
  no error to return.
\<close>

theorem C7_receive_error_is_logged_and_stays_local:
  assumes "subscriptionHandlers s k = Some h"
    and "effective (subscriptionInterceptors (opts s)) (next_ctx w, k) (handleFunc h) w' = (E, w1)"
    and "Receive (subscription h) (CancelCtx (next_ctx w) parent) (\<lambda>c m wm. snd (E c m wm)) w1
           = (Some e, w2)"
    and "subscriptionHandlers s k' = Some h'"
  shows "(case snd (snd (Run s parent w)) k of
            None \<Rightarrow> False
          | Some g \<Rightarrow>
              fst (g w') = log_Printf e w2
              \<and> events (fst (g w')) = events w2 @ [LogPrintf e]
              \<and> cancelled (fst (g w')) = cancelled w2
              \<and> ctx_done (fst (g w')) (CancelCtx (next_ctx w) parent)
                  = ctx_done w2 (CancelCtx (next_ctx w) parent)
              \<and> (case snd (snd (Run s parent w)) k' of
                    None \<Rightarrow> False
                  | Some g' \<Rightarrow>
                      fst (g' (fst (g w')))
                        = (case effective (subscriptionInterceptors (opts s)) (next_ctx w, k')
                                  (handleFunc h') (log_Printf e w2) of
                             (E', w1') \<Rightarrow>
                               finish (Receive (subscription h') (CancelCtx (next_ctx w) parent)
                                         (\<lambda>c m wm. snd (E' c m wm)) w1'))))
       \<and> fst (Run s parent w) = s\<lparr>cancel := Some (next_ctx w)\<rparr>
       \<and> events (fst (snd (Run s parent w))) = events w
       \<and> cancelled (fst (snd (Run s parent w))) = cancelled w"
proof -
  have ended: "fst (Run_goroutine (s\<lparr>cancel := Some (next_ctx w)\<rparr>) (CancelCtx (next_ctx w) parent)
                      h (next_ctx w, k) w') = log_Printf e w2"
    using assms(2,3) by (simp add: Run_goroutine_eq finish_def)
  have returned_first: "fst (Run s parent w) = s\<lparr>cancel := Some (next_ctx w)\<rparr>
       \<and> events (fst (snd (Run s parent w))) = events w
       \<and> cancelled (fst (snd (Run s parent w))) = cancelled w"
    by (simp add: Run_def WithCancel_def Let_def)
  show ?thesis
    using assms(1,4) returned_first
    by (simp add: Run_started ended)
       (simp add: Run_goroutine_eq log_Printf_def
          ctx_done_cancelled [of "w2\<lparr>events := events w2 @ [LogPrintf e]\<rparr>" w2]
          split: prod.splits)
qed

theorem C7_receive_error_is_logged_witness:
  "subscriptionHandlers orders_and_billing ''orders''
     = Some \<lparr>subscription = sub_of ''orders'' [msg ''m1''] (Some ''stream closed''),
             handleFunc = handler_of ''first:'' None\<rparr>
   \<and> effective (subscriptionInterceptors (opts orders_and_billing)) (next_ctx w0, ''orders'')
        (handleFunc \<lparr>subscription = sub_of ''orders'' [msg ''m1''] (Some ''stream closed''),
                     handleFunc = handler_of ''first:'' None\<rparr>)
        (fst (snd (Run orders_and_billing Background w0)))
       = (handler_of ''first:'' None, fst (snd (Run orders_and_billing Background w0)))
   \<and> Receive (subscription \<lparr>subscription = sub_of ''orders'' [msg ''m1''] (Some ''stream closed''),
                             handleFunc = handler_of ''first:'' None\<rparr>)
        (CancelCtx (next_ctx w0) Background)
        (\<lambda>c m wm. snd (handler_of ''first:'' None c m wm))
        (fst (snd (Run orders_and_billing Background w0)))
       = (Some ''stream closed'',
          (fst (snd (Run orders_and_billing Background w0)))\<lparr>events := [UserEv ''first:m1'']\<rparr>)
   \<and> subscriptionHandlers orders_and_billing ''billing''
       = Some \<lparr>subscription = sub_of ''billing'' [msg ''m2'', msg ''m3''] None,
               handleFunc = handler_of ''third:'' None\<rparr>
   \<and> (case snd (snd (Run orders_and_billing Background w0)) ''orders'' of
         None \<Rightarrow> False
       | Some g \<Rightarrow>
           events (fst (g (fst (snd (Run orders_and_billing Background w0)))))
             = [UserEv ''first:m1'', LogPrintf ''stream closed'']
           \<and> cancelled (fst (g (fst (snd (Run orders_and_billing Background w0))))) = {}
           \<and> \<not> ctx_done (fst (g (fst (snd (Run orders_and_billing Background w0)))))
                 (CancelCtx 0 Background)
           \<and> (case snd (snd (Run orders_and_billing Background w0)) ''billing'' of
                 None \<Rightarrow> False
               | Some g' \<Rightarrow>
                   events (fst (g' (fst (g (fst (snd (Run orders_and_billing Background w0)))))))
                     = [UserEv ''first:m1'', LogPrintf ''stream closed'',
                        UserEv ''third:m2'', UserEv ''third:m3'']))
   \<and> cancel (fst (Run orders_and_billing Background w0)) = Some 0
   \<and> events (fst (snd (Run orders_and_billing Background w0))) = []"
proof -
  have h1: "subscriptionHandlers orders_and_billing ''orders''
     = Some \<lparr>subscription = sub_of ''orders'' [msg ''m1''] (Some ''stream closed''),
             handleFunc = handler_of ''first:'' None\<rparr>"
    by (simp add: orders_and_billing_eq)
  have h2: "effective (subscriptionInterceptors (opts orders_and_billing)) (next_ctx w0, ''orders'')
        (handleFunc \<lparr>subscription = sub_of ''orders'' [msg ''m1''] (Some ''stream closed''),
                     handleFunc = handler_of ''first:'' None\<rparr>)
        (fst (snd (Run orders_and_billing Background w0)))
       = (handler_of ''first:'' None, fst (snd (Run orders_and_billing Background w0)))"
    by (simp add: orders_and_billing_eq NewSubscriber_def)
  have h3: "Receive (subscription \<lparr>subscription = sub_of ''orders'' [msg ''m1''] (Some ''stream closed''),
                             handleFunc = handler_of ''first:'' None\<rparr>)
        (CancelCtx (next_ctx w0) Background)
        (\<lambda>c m wm. snd (handler_of ''first:'' None c m wm))
        (fst (snd (Run orders_and_billing Background w0)))
       = (Some ''stream closed'',
          (fst (snd (Run orders_and_billing Background w0)))\<lparr>events := [UserEv ''first:m1'']\<rparr>)"
    by (simp add: sub_of_def handler_of_def msg_def Run_def WithCancel_def Let_def w0_def)
  have h4: "subscriptionHandlers orders_and_billing ''billing''
       = Some \<lparr>subscription = sub_of ''billing'' [msg ''m2'', msg ''m3''] None,
               handleFunc = handler_of ''third:'' None\<rparr>"
    by (simp add: orders_and_billing_eq)
  show ?thesis
    using h1 h2 h3 h4
      C7_receive_error_is_logged_and_stays_local [OF h1 h2 h3 h4]
    by (simp add: Run_started Run_def WithCancel_def Let_def orders_and_billing_eq
        NewSubscriber_def Run_goroutine_eq finish_def log_Printf_def sub_of_def msg_def
        w0_def handler_of_def)
qed

text \<open>
  C8. When the effective handler returns an error for a message, the subscriber
  acknowledges nothing and goes on: the goroutine \<^verbatim>\<open>Run\<close> started hands
  \<^verbatim>\<open>Receive\<close> a callback that leaves the world as the effective handler left it and
  tells \<^verbatim>\<open>Receive\<close> nothing of the error. So the error has no effect on what the
  subscriber does: with an outermost interceptor that turns every error of the chain into
  \<^verbatim>\<open>nil\<close>, the goroutine leaves the same world, whatever \<^verbatim>\<open>Receive\<close> is. The
  negative acknowledgement of a failed message is the work of the pm_autoack interceptor:
  with it outermost the callback is the one that acknowledges, and for this message it
  leaves the handler's world with the \<^verbatim>\<open>Nack\<close>.
\<close>

theorem C8_handler_error_is_dropped_by_the_callback:
  assumes "subscriptionHandlers s k = Some h"
    and "effective (subscriptionInterceptors (opts s)) (next_ctx w, k) (handleFunc h) w' = (E, w1)"
    and "fst (E c m wm) = Some e"
  shows "(case snd (snd (Run s parent w)) k of
            None \<Rightarrow> False
          | Some g \<Rightarrow>
              fst (g w') = finish (Receive (subscription h) (CancelCtx (next_ctx w) parent)
                                     (\<lambda>c m wm. snd (E c m wm)) w1)
              \<and> (case snd (snd (Run (s\<lparr>opts := \<lparr>subscriptionInterceptors =
                                         pure_interceptor swallow_errors
                                           # subscriptionInterceptors (opts s)\<rparr>\<rparr>) parent w)) k of
                    None \<Rightarrow> False
                  | Some g_nil \<Rightarrow> fst (g_nil w') = fst (g w')))
       \<and> (case snd (snd (Run (s\<lparr>opts := \<lparr>subscriptionInterceptors =
                                  pure_interceptor pm_autoack_SubscriptionInterceptor
                                    # subscriptionInterceptors (opts s)\<rparr>\<rparr>) parent w)) k of
             None \<Rightarrow> False
           | Some g_ack \<Rightarrow>
               fst (g_ack w')
                 = finish (Receive (subscription h) (CancelCtx (next_ctx w) parent)
                             (\<lambda>c m wm. snd (pm_autoack_SubscriptionInterceptor (next_ctx w, k) E c m wm))
                             w1))
       \<and> snd (pm_autoack_SubscriptionInterceptor (next_ctx w, k) E c m wm)
           = Nack m (snd (E c m wm))"
proof -
  have nack: "snd (pm_autoack_SubscriptionInterceptor (next_ctx w, k) E c m wm)
           = Nack m (snd (E c m wm))"
    using assms(3) by (cases "E c m wm") (simp add: pm_autoack_SubscriptionInterceptor_def)
  show ?thesis
    using assms(1,2) nack
    by (simp add: Run_started Run_goroutine_eq pure_interceptor_def swallow_errors_def)
qed

theorem C8_handler_error_is_dropped_witness:
  "subscriptionHandlers failing_orders ''orders''
     = Some \<lparr>subscription = sub_of ''orders'' [msg ''m1'', msg ''m2''] None,
             handleFunc = handler_of ''failed:'' (Some ''boom'')\<rparr>
   \<and> effective (subscriptionInterceptors (opts failing_orders)) (next_ctx w0, ''orders'')
        (handleFunc \<lparr>subscription = sub_of ''orders'' [msg ''m1'', msg ''m2''] None,
                     handleFunc = handler_of ''failed:'' (Some ''boom'')\<rparr>) w0
       = (handler_of ''failed:'' (Some ''boom''), w0)
   \<and> fst (handler_of ''failed:'' (Some ''boom'') Background (msg ''m1'') w0) = Some ''boom''
   \<and> (case snd (snd (Run failing_orders Background w0)) ''orders'' of
         None \<Rightarrow> False
       | Some g \<Rightarrow>
           events (fst (g w0)) = [UserEv ''failed:m1'', UserEv ''failed:m2'']
           \<and> cancelled (fst (g w0)) = {})
   \<and> (case snd (snd (Run (failing_orders\<lparr>opts := \<lparr>subscriptionInterceptors =
                              pure_interceptor pm_autoack_SubscriptionInterceptor
                                # subscriptionInterceptors (opts failing_orders)\<rparr>\<rparr>)
                       Background w0)) ''orders'' of
         None \<Rightarrow> False
       | Some g_ack \<Rightarrow>
           events (fst (g_ack w0))
             = [UserEv ''failed:m1'', NackEv ''m1'', UserEv ''failed:m2'', NackEv ''m2''])
   \<and> events (snd (pm_autoack_SubscriptionInterceptor (next_ctx w0, ''orders'')
                     (handler_of ''failed:'' (Some ''boom'')) Background (msg ''m1'') w0))
       = [UserEv ''failed:m1'', NackEv ''m1'']"
proof -
  have h1: "subscriptionHandlers failing_orders ''orders''
     = Some \<lparr>subscription = sub_of ''orders'' [msg ''m1'', msg ''m2''] None,
             handleFunc = handler_of ''failed:'' (Some ''boom'')\<rparr>"
    by (simp add: failing_orders_eq)
  have h2: "effective (subscriptionInterceptors (opts failing_orders)) (next_ctx w0, ''orders'')
        (handleFunc \<lparr>subscription = sub_of ''orders'' [msg ''m1'', msg ''m2''] None,
                     handleFunc = handler_of ''failed:'' (Some ''boom'')\<rparr>) w0
       = (handler_of ''failed:'' (Some ''boom''), w0)"
    by (simp add: failing_orders_eq NewSubscriber_def)
  have h3: "fst (handler_of ''failed:'' (Some ''boom'') Background (msg ''m1'') w0) = Some ''boom''"
    by (simp add: handler_of_def)
  show ?thesis
    using h1 h2 h3
      C8_handler_error_is_dropped_by_the_callback [OF h1 h2 h3, where parent = Background]
    by (simp add: Run_started failing_orders_eq NewSubscriber_def Run_goroutine_eq
        pure_interceptor_def pm_autoack_SubscriptionInterceptor_def finish_def sub_of_def
        msg_def w0_def handler_of_def Nack_def)
qed

text \<open>
  C9. The handler that pm_autoack's interceptor makes from \<open>nxt\<close> runs \<open>nxt\<close> once on the
  message, then calls \<^verbatim>\<open>m.Ack()\<close> if \<open>nxt\<close> returned \<^verbatim>\<open>nil\<close> and
  \<^verbatim>\<open>m.Nack()\<close> if it returned an error, and returns what \<open>nxt\<close> returned: its result
  and world are those of one run of \<open>nxt\<close> followed by the one acknowledgement. With an
  inner handler that records each of its runs, the trace holds one run and then the
  acknowledgement.
\<close>

theorem C9_autoack_acks_on_nil_nacks_on_error:
  "pm_autoack_SubscriptionInterceptor info nxt ctx m w
     = (fst (nxt ctx m w),
        if fst (nxt ctx m w) = None then Ack m (snd (nxt ctx m w)) else Nack m (snd (nxt ctx m w)))
   \<and> fst (pm_autoack_SubscriptionInterceptor info nxt ctx m w) = fst (nxt ctx m w)
   \<and> (events (snd (pm_autoack_SubscriptionInterceptor info nxt ctx m w))
         = events (snd (nxt ctx m w)) @ [AckEv (msg_ID m)]) = (fst (nxt ctx m w) = None)
   \<and> (events (snd (pm_autoack_SubscriptionInterceptor info nxt ctx m w))
         = events (snd (nxt ctx m w)) @ [NackEv (msg_ID m)]) = (fst (nxt ctx m w) \<noteq> None)
   \<and> events (snd (pm_autoack_SubscriptionInterceptor info (handler_of tag r) ctx m w))
       = events w @ [UserEv (tag @ msg_ID m), if r = None then AckEv (msg_ID m) else NackEv (msg_ID m)]"
  by (cases "nxt ctx m w")
     (simp add: pm_autoack_SubscriptionInterceptor_def Ack_def Nack_def handler_of_def)

text \<open>
  C10. \<^verbatim>\<open>Close\<close> on a subscriber whose cancel function is \<^verbatim>\<open>nil\<close>, as it is
  until \<^verbatim>\<open>Run\<close> is called, does not panic and changes nothing; so it is on a new
  subscriber. On any subscriber \<^verbatim>\<open>Close\<close> does not panic, and a second
  \<^verbatim>\<open>Close\<close> does not panic and changes nothing.
\<close>

theorem C10_Close_without_Run_is_a_no_op:
  assumes "cancel s = None"
  shows "Close s w = Inr w
       \<and> Close (NewSubscriber client opt) w = Inr w
       \<and> (\<exists>w_closed. Close t w = Inr w_closed \<and> Close t w_closed = Inr w_closed)"
  using assms
  by (cases "cancel t") (auto simp add: Close_def NewSubscriber_def call_cancel_def)

theorem C10_Close_without_Run_witness:
  "cancel (NewSubscriber ''project'' []) = None
   \<and> Close (NewSubscriber ''project'' []) w0 = Inr w0
   \<and> Close (fst (Run (NewSubscriber ''project'' []) Background w0)) w0
       = Inr (w0\<lparr>cancelled := {0}\<rparr>)
   \<and> Close (fst (Run (NewSubscriber ''project'' []) Background w0)) (w0\<lparr>cancelled := {0}\<rparr>)
       = Inr (w0\<lparr>cancelled := {0}\<rparr>)"
proof -
  have h: "cancel (NewSubscriber ''project'' []) = None"
    by (simp add: NewSubscriber_def)
  show ?thesis
    using h C10_Close_without_Run_is_a_no_op [OF h, where w = w0 and client = "''project''"
        and opt = "[]" and t = "fst (Run (NewSubscriber ''project'' []) Background w0)"]
    by (simp add: Close_def Run_def WithCancel_def call_cancel_def NewSubscriber_def w0_def Let_def)
qed

end
